theory Spec2Isabelle
  imports Complex_Main "HOL-Library.Log_Nat"
begin

section \<open>Data model of \<open>src/app/page.tsx\<close>\<close>

text \<open>
  The component \<open>SnakeVentures\<close> keeps its game state in React state cells. The model is a
  record of those cells and one function per handler, each taking the state and returning the
  new one. Coordinates are JavaScript numbers that only ever hold small integers, so they are
  \<open>int\<close>; the score only counts up from 0 and is a \<open>nat\<close>. The cell \<open>showControls\<close> and the
  timer reference belong to the presentation and are left out.
\<close>

record Position =
  x :: int
  y :: int

datatype Direction = UP | DOWN | LEFT | RIGHT

definition GRID_SIZE :: int where
  "GRID_SIZE = 20"

definition INITIAL_SNAKE :: "Position list" where
  "INITIAL_SNAKE = [\<lparr>x = 10, y = 10\<rparr>]"

definition INITIAL_DIRECTION :: Direction where
  "INITIAL_DIRECTION = RIGHT"

definition MAX_PEACHES :: nat where
  "MAX_PEACHES = 10"

record game =
  snake :: "Position list"
  direction :: Direction
  peach :: Position
  gameOver :: bool
  score :: nat
  isPlaying :: bool

text \<open>The values the \<open>useState\<close> calls start from (lines 21 to 26).\<close>

definition initial_game :: game where
  "initial_game = \<lparr>snake = INITIAL_SNAKE, direction = INITIAL_DIRECTION,
     peach = \<lparr>x = 15, y = 10\<rparr>, gameOver = False, score = 0, isPlaying = False\<rparr>"

section \<open>JavaScript numbers in \<open>Math.floor(Math.random() * GRID_SIZE)\<close>\<close>

text \<open>
  \<open>Math.random()\<close> returns an IEEE 754 double, and \<open>*\<close> is the multiplication of doubles:
  the exact product rounded to the nearest double, ties to the even significand. A value of
  the type below is the number \<open>mant * 2 ^ expo\<close>; it is a double when the mantissa has at
  most 53 bits and the exponent of its last bit is in the range of the format (subnormal
  numbers have exponent \<open>-1074\<close>). The same type holds the exact product before rounding.
\<close>

datatype double = Double (mant: int) (expo: int)

definition is_double :: "double \<Rightarrow> bool" where
  "is_double d = (\<bar>mant d\<bar> < 2 ^ 53 \<and> - 1074 \<le> expo d \<and> expo d \<le> 971)"

instantiation double :: zero
begin

definition zero_double :: double where
  "zero_double = Double 0 0"

instance ..

end

text \<open>
  Rounding to the nearest double. The \<open>s\<close> lowest bits of the mantissa do not fit: those
  beyond 53 bits, and those below the exponent \<open>-1074\<close>. They are cut off, and the mantissa
  goes up by one when they are more than half a unit of the last place, or exactly half and
  the mantissa that is left is odd. Overflow to infinity is left out: the products below are
  smaller than 20.
\<close>

definition round_double :: "double \<Rightarrow> double" where
  "round_double d =
     (let m = mant d; e = expo d; s = max (bitlen \<bar>m\<bar> - 53) (- 1074 - e) in
      if s \<le> 0 then d
      else
        let p = 2 ^ nat s; q = \<bar>m\<bar> div p; r = \<bar>m\<bar> mod p;
            q' = (if 2 * r > p \<or> (2 * r = p \<and> odd q) then q + 1 else q)
        in Double (sgn m * q') (e + s))"

definition fmul :: "double \<Rightarrow> double \<Rightarrow> double" where
  "fmul a b = round_double (Double (mant a * mant b) (expo a + expo b))"

text \<open>\<open>Math.floor\<close>, and the double that an integer constant such as \<open>GRID_SIZE\<close> is.\<close>

definition floor_double :: "double \<Rightarrow> int" where
  "floor_double d =
     (if expo d \<ge> 0 then mant d * 2 ^ nat (expo d) else mant d div 2 ^ nat (- expo d))"

definition double_of_int :: "int \<Rightarrow> double" where
  "double_of_int n = Double n 0"

text \<open>A double that is at least 0 and less than 1, as \<open>Math.random()\<close> returns.\<close>

definition unit_double :: "double \<Rightarrow> bool" where
  "unit_double d =
     (is_double d \<and> 0 \<le> mant d \<and>
      (if expo d \<ge> 0 then mant d = 0 else mant d < 2 ^ nat (- expo d)))"

section \<open>The random source and \<open>generatePeach\<close>\<close>

text \<open>
  \<open>Math.random()\<close> is modelled by the sequence of the doubles it returns: \<open>rnd k\<close> is the
  value of the \<open>k\<close>-th call, and the position \<open>k\<close> of the next call is threaded through the
  state.
\<close>

type_synonym random_source = "nat \<Rightarrow> double"

definition in_unit :: "random_source \<Rightarrow> bool" where
  "in_unit rnd = (\<forall>n. unit_double (rnd n))"

text \<open>The cell built from the calls \<open>k\<close> and \<open>k + 1\<close> (lines 34 to 37): first \<open>x\<close>, then \<open>y\<close>.\<close>

definition draw :: "random_source \<Rightarrow> nat \<Rightarrow> Position" where
  "draw rnd k =
     \<lparr>x = floor_double (fmul (rnd k) (double_of_int GRID_SIZE)),
      y = floor_double (fmul (rnd (k + 1)) (double_of_int GRID_SIZE))\<rparr>"

text \<open>
  \<open>currentSnake.some(segment => segment.x === p.x && segment.y === p.y)\<close>, the test of
  lines 38 and 74.
\<close>

definition occupies :: "Position list \<Rightarrow> Position \<Rightarrow> bool" where
  "occupies currentSnake p = list_ex (\<lambda>segment. x segment = x p \<and> y segment = y p) currentSnake"

text \<open>
  The \<open>do ... while\<close> loop of lines 33 to 38 has no bound: it draws until a cell is free.
  \<open>None\<close> stands for a loop that never ends; a result carries the position of the next
  unused random number.
\<close>

partial_function (option) generatePeach ::
  "random_source \<Rightarrow> nat \<Rightarrow> Position list \<Rightarrow> (Position \<times> nat) option" where
  "generatePeach rnd k currentSnake =
     (if occupies currentSnake (draw rnd k)
      then generatePeach rnd (k + 2) currentSnake
      else Some (draw rnd k, k + 2))"

section \<open>The tick: \<open>moveSnake\<close>\<close>

text \<open>The \<open>switch\<close> of lines 51 to 64 on a copy of the head.\<close>

definition advance :: "Direction \<Rightarrow> Position \<Rightarrow> Position" where
  "advance d head =
     (case d of
        UP \<Rightarrow> head\<lparr>y := y head - 1\<rparr>
      | DOWN \<Rightarrow> head\<lparr>y := y head + 1\<rparr>
      | LEFT \<Rightarrow> head\<lparr>x := x head - 1\<rparr>
      | RIGHT \<Rightarrow> head\<lparr>x := x head + 1\<rparr>)"

text \<open>
  \<open>moveSnake\<close> (lines 43 to 98) as one atomic step. On a snake with no segment the source
  reads \<open>undefined\<close> coordinates, every comparison fails, the new head is pushed and popped
  again, and the state is what it was; a reachable snake is never empty.
\<close>

definition moveSnake :: "random_source \<Rightarrow> game \<times> nat \<Rightarrow> (game \<times> nat) option" where
  "moveSnake rnd s =
     (case s of (g, k) \<Rightarrow>
        if gameOver g \<or> \<not> isPlaying g \<or> score g \<ge> MAX_PEACHES then Some (g, k)
        else
          (case snake g of
             [] \<Rightarrow> Some (g, k)
           | h # t \<Rightarrow>
               let head = advance (direction g) h in
               if x head < 0 \<or> x head \<ge> GRID_SIZE \<or> y head < 0 \<or> y head \<ge> GRID_SIZE
               then Some (g\<lparr>gameOver := True, isPlaying := False\<rparr>, k)
               else if occupies (snake g) head
               then Some (g\<lparr>gameOver := True, isPlaying := False\<rparr>, k)
               else if x head = x (peach g) \<and> y head = y (peach g)
               then
                 (if score g + 1 < MAX_PEACHES
                  then
                    (case generatePeach rnd k (head # snake g) of
                       None \<Rightarrow> None
                     | Some (p, k') \<Rightarrow>
                         Some (g\<lparr>snake := head # snake g, score := score g + 1, peach := p\<rparr>, k'))
                  else Some (g\<lparr>snake := head # snake g, score := score g + 1,
                               isPlaying := False\<rparr>, k))
               else Some (g\<lparr>snake := butlast (head # snake g)\<rparr>, k)))"

section \<open>Direction input\<close>

text \<open>
  \<open>event.key.toLowerCase()\<close> on the ASCII letters; no other character lowers to one of
  \<open>w\<close>, \<open>a\<close>, \<open>s\<close>, \<open>d\<close>.
\<close>

definition toLowerCase :: "string \<Rightarrow> string" where
  "toLowerCase s =
     map (\<lambda>c. if (of_char (CHR ''A'') :: nat) \<le> of_char c \<and> (of_char c :: nat) \<le> of_char (CHR ''Z'')
              then char_of (of_char c + (32::nat)) else c) s"

definition handleKeyPress :: "string \<Rightarrow> game \<Rightarrow> game" where
  "handleKeyPress eventKey g =
     (if gameOver g \<and> score g < MAX_PEACHES then g
      else
        let key = toLowerCase eventKey in
        if key = ''w'' then (if direction g \<noteq> DOWN then g\<lparr>direction := UP\<rparr> else g)
        else if key = ''s'' then (if direction g \<noteq> UP then g\<lparr>direction := DOWN\<rparr> else g)
        else if key = ''a'' then (if direction g \<noteq> RIGHT then g\<lparr>direction := LEFT\<rparr> else g)
        else if key = ''d'' then (if direction g \<noteq> LEFT then g\<lparr>direction := RIGHT\<rparr> else g)
        else g)"

definition handleMobileControl :: "Direction \<Rightarrow> game \<Rightarrow> game" where
  "handleMobileControl newDirection g =
     (if gameOver g \<and> score g < MAX_PEACHES then g
      else
        (case newDirection of
           UP \<Rightarrow> (if direction g \<noteq> DOWN then g\<lparr>direction := UP\<rparr> else g)
         | DOWN \<Rightarrow> (if direction g \<noteq> UP then g\<lparr>direction := DOWN\<rparr> else g)
         | LEFT \<Rightarrow> (if direction g \<noteq> RIGHT then g\<lparr>direction := LEFT\<rparr> else g)
         | RIGHT \<Rightarrow> (if direction g \<noteq> LEFT then g\<lparr>direction := RIGHT\<rparr> else g)))"

section \<open>Starting and resetting\<close>

definition startGame :: "random_source \<Rightarrow> game \<times> nat \<Rightarrow> (game \<times> nat) option" where
  "startGame rnd s =
     (case s of (g, k) \<Rightarrow>
        (case generatePeach rnd k INITIAL_SNAKE of
           None \<Rightarrow> None
         | Some (p, k') \<Rightarrow>
             Some (g\<lparr>snake := INITIAL_SNAKE, direction := INITIAL_DIRECTION, peach := p,
                     gameOver := False, score := 0, isPlaying := True\<rparr>, k')))"

definition resetGame :: "game \<Rightarrow> game" where
  "resetGame g = g\<lparr>snake := INITIAL_SNAKE, direction := INITIAL_DIRECTION,
     peach := \<lparr>x = 15, y = 10\<rparr>, gameOver := False, score := 0, isPlaying := False\<rparr>"

section \<open>Phases and runs\<close>

text \<open>
  The source has no phase variable. The four phases are read off the conditions it tests:
  \<open>isGameWon\<close> (line 197) shows the victory banner, \<open>gameOver && !isGameWon\<close> (line 248)
  the game-over banner, and the interval of line 157 ticks only while
  \<open>isPlaying && !gameOver && score < MAX_PEACHES\<close>.
\<close>

definition isGameWon :: "game \<Rightarrow> bool" where
  "isGameWon g = (score g \<ge> MAX_PEACHES)"

datatype Phase = IDLE | ACTIVE | WON | LOST

definition phase :: "game \<Rightarrow> Phase" where
  "phase g =
     (if isGameWon g then WON
      else if gameOver g then LOST
      else if isPlaying g then ACTIVE
      else IDLE)"

text \<open>
  What can happen to the component: the interval fires, a key goes down, a touch button is
  pressed, or one of the two buttons under the board is clicked. A run applies a list of
  events in order and has no result when a peach loop does not end. The page shows the
  start button while the game is not playing and the reset button while it is; a run may
  click either in any state, which only adds runs.
\<close>

datatype event = Tick | KeyDown string | Touch Direction | StartClick | ResetClick

definition step :: "random_source \<Rightarrow> event \<Rightarrow> game \<times> nat \<Rightarrow> (game \<times> nat) option" where
  "step rnd e s =
     (case e of
        Tick \<Rightarrow> moveSnake rnd s
      | KeyDown eventKey \<Rightarrow> Some (handleKeyPress eventKey (fst s), snd s)
      | Touch newDirection \<Rightarrow> Some (handleMobileControl newDirection (fst s), snd s)
      | StartClick \<Rightarrow> startGame rnd s
      | ResetClick \<Rightarrow> Some (resetGame (fst s), snd s))"

fun exec :: "random_source \<Rightarrow> event list \<Rightarrow> game \<times> nat \<Rightarrow> (game \<times> nat) option" where
  "exec rnd [] s = Some s"
| "exec rnd (e # es) s = (case step rnd e s of None \<Rightarrow> None | Some s' \<Rightarrow> exec rnd es s')"

text \<open>The wall test of line 67, negated: the cell is inside the grid.\<close>

definition in_grid :: "Position \<Rightarrow> bool" where
  "in_grid p = (\<not> (x p < 0 \<or> x p \<ge> GRID_SIZE \<or> y p < 0 \<or> y p \<ge> GRID_SIZE))"

text \<open>
  The state cells \<open>moveSnake\<close> assigns: \<open>setSnake\<close>, \<open>setPeach\<close>, \<open>setGameOver\<close>,
  \<open>setScore\<close> and \<open>setIsPlaying\<close>. It only reads \<open>direction\<close>, and it returns nothing.
\<close>

definition written :: "game \<Rightarrow> Position list \<times> Position \<times> bool \<times> nat \<times> bool" where
  "written g = (snake g, peach g, gameOver g, score g, isPlaying g)"

text \<open>
  The guards of both input handlers pair the directions: \<open>UP\<close> is refused while the
  direction is \<open>DOWN\<close>, and so on. The keys are those of the \<open>switch\<close> of lines 106 to 119.
\<close>

definition opposite :: "Direction \<Rightarrow> Direction" where
  "opposite d = (case d of UP \<Rightarrow> DOWN | DOWN \<Rightarrow> UP | LEFT \<Rightarrow> RIGHT | RIGHT \<Rightarrow> LEFT)"

definition key_of :: "Direction \<Rightarrow> string" where
  "key_of d = (case d of UP \<Rightarrow> ''w'' | DOWN \<Rightarrow> ''s'' | LEFT \<Rightarrow> ''a'' | RIGHT \<Rightarrow> ''d'')"

section \<open>Concrete states and random sources\<close>

text \<open>A game in progress with the given snake, direction, peach and score.\<close>

definition playing :: "Position list \<Rightarrow> Direction \<Rightarrow> Position \<Rightarrow> nat \<Rightarrow> game" where
  "playing segs d p n =
     \<lparr>snake = segs, direction = d, peach = p, gameOver = False, score = n, isPlaying = True\<rparr>"

text \<open>A random source that always returns the same number.\<close>

definition constant_source :: "double \<Rightarrow> random_source" where
  "constant_source r = (\<lambda>n. r)"

text \<open>
  For a coordinate \<open>v\<close> from 0 to 19, the least multiple of \<open>1 / 64\<close> that is at least
  \<open>v / 20\<close>: a double in \<open>[0, 1)\<close> whose product with 20 is exact and has floor \<open>v\<close>.
\<close>

definition coordinate_double :: "int \<Rightarrow> double" where
  "coordinate_double v = Double ((16 * v + 4) div 5) (- 6)"

text \<open>The random source whose \<open>n\<close>-th number gives the coordinate \<open>c n\<close>.\<close>

definition coordinate_source :: "(nat \<Rightarrow> int) \<Rightarrow> random_source" where
  "coordinate_source c = (\<lambda>n. coordinate_double (c n))"

text \<open>
  A random source that draws the cells of the grid one after the other, column by column,
  again and again.
\<close>

definition sweep_coordinate :: "nat \<Rightarrow> int" where
  "sweep_coordinate n =
     (if even n then int (((n div 2) mod 400) div 20) else int (((n div 2) mod 400) mod 20))"

definition sweep_source :: random_source where
  "sweep_source = coordinate_source sweep_coordinate"

text \<open>
  A snake of four segments curled in the corner by the left wall, head at \<open>(0, 5)\<close> and
  tail at \<open>(1, 5)\<close>: going \<open>LEFT\<close> leaves the grid, going \<open>RIGHT\<close> runs into the tail.
\<close>

definition hook :: "Direction \<Rightarrow> game" where
  "hook d = playing [\<lparr>x = 0, y = 5\<rparr>, \<lparr>x = 0, y = 6\<rparr>, \<lparr>x = 1, y = 6\<rparr>, \<lparr>x = 1, y = 5\<rparr>]
              d \<lparr>x = 7, y = 7\<rparr> 3"

text \<open>
  The same shape under the top wall, head at \<open>(5, 0)\<close> and tail at \<open>(5, 1)\<close>: going
  \<open>UP\<close> leaves the grid, going \<open>DOWN\<close> runs into the tail.
\<close>

definition ledge :: "Direction \<Rightarrow> game" where
  "ledge d = playing [\<lparr>x = 5, y = 0\<rparr>, \<lparr>x = 6, y = 0\<rparr>, \<lparr>x = 6, y = 1\<rparr>, \<lparr>x = 5, y = 1\<rparr>]
               d \<lparr>x = 12, y = 3\<rparr> 3"

text \<open>
  The draws of the loop that starts at call \<open>k\<close> are the cells \<open>draw rnd (k + 2 * j)\<close>.
  The loop can only end if one of them is free.
\<close>

definition eventually_free :: "random_source \<Rightarrow> nat \<Rightarrow> Position list \<Rightarrow> bool" where
  "eventually_free rnd k segs = (\<exists>j. \<not> occupies segs (draw rnd (k + 2 * j)))"

text \<open>
  A fair random source: every cell of the grid comes up among the draws of the loop that
  starts at call \<open>k\<close>. A uniform source is fair with probability 1.
\<close>

definition fair :: "random_source \<Rightarrow> nat \<Rightarrow> bool" where
  "fair rnd k = (\<forall>p. in_grid p \<longrightarrow> (\<exists>j. draw rnd (k + 2 * j) = p))"

text \<open>Every cell of the grid, column by column: a snake that leaves no cell free.\<close>

definition full_grid :: "Position list" where
  "full_grid = concat (map (\<lambda>i. map (\<lambda>j. \<lparr>x = i, y = j\<rparr>) [0..19]) [0..19])"

section \<open>Invariants of a run\<close>

text \<open>
  Where the peach is: off the snake as long as the score is below \<open>MAX_PEACHES\<close>, and under
  the head once the last peach is eaten, since line 85 places no new one.
\<close>

definition peach_placed :: "game \<Rightarrow> bool" where
  "peach_placed g =
     (snake g \<noteq> [] \<and>
      (if score g < MAX_PEACHES then \<not> occupies (snake g) (peach g)
       else peach g = hd (snake g)))"

definition body_in_grid :: "game \<Rightarrow> bool" where
  "body_in_grid g = list_all in_grid (snake g)"

text \<open>
  A random source that puts each peach right in front of a snake that runs along row 10
  from \<open>(10, 10)\<close> to the right wall, and the tenth peach below the corner cell
  \<open>(19, 10)\<close>; and the run that eats all ten.
\<close>

definition row_coordinate :: "nat \<Rightarrow> int" where
  "row_coordinate n =
     (if n = 18 then 19
      else if n = 19 then 11
      else if even n \<and> n < 18 then 11 + int (n div 2)
      else 10)"

definition row_source :: random_source where
  "row_source = coordinate_source row_coordinate"

definition winning_run :: "event list" where
  "winning_run = [StartClick, Tick, Tick, Tick, Tick, Tick, Tick, Tick, Tick, Tick,
                  Touch DOWN, Tick]"

section \<open>Facts about the peach loop\<close>

lemma occupies_iff: "occupies currentSnake p = (p \<in> set currentSnake)"
  by (induction currentSnake) (auto simp: occupies_def)

lemma generatePeach_free:
  "\<not> occupies segs (draw rnd k) \<Longrightarrow> generatePeach rnd k segs = Some (draw rnd k, k + 2)"
  by (subst generatePeach.simps) simp

lemma generatePeach_busy:
  "occupies segs (draw rnd k) \<Longrightarrow> generatePeach rnd k segs = generatePeach rnd (k + 2) segs"
  by (subst generatePeach.simps) simp

text \<open>
  A result of the loop is the first free cell of the sequence of draws: the cells drawn
  before it were all occupied.
\<close>

lemma generatePeach_Some:
  "generatePeach rnd k segs = Some r \<Longrightarrow>
     \<exists>j. r = (draw rnd (k + 2 * j), k + 2 * j + 2) \<and> \<not> occupies segs (draw rnd (k + 2 * j))
        \<and> (\<forall>i<j. occupies segs (draw rnd (k + 2 * i)))"
proof (induction rule: generatePeach.raw_induct[rotated 1, consumes 1])
  case (1 gen rnd k segs r)
  show ?case
  proof (cases "occupies segs (draw rnd k)")
    case False
    with 1(2) have "r = (draw rnd k, k + 2)" by simp
    with False show ?thesis by (intro exI[of _ 0]) simp
  next
    case True
    with 1(2) have "gen rnd (k + 2) segs = Some r" by simp
    from 1(1)[OF this] obtain j where
      j: "r = (draw rnd (k + 2 + 2 * j), k + 2 + 2 * j + 2)"
         "\<not> occupies segs (draw rnd (k + 2 + 2 * j))"
         "\<forall>i<j. occupies segs (draw rnd (k + 2 + 2 * i))" by blast
    have shift: "\<And>i. k + 2 + 2 * i = k + 2 * Suc i" by simp
    have "\<forall>i<Suc j. occupies segs (draw rnd (k + 2 * i))"
    proof (intro allI impI)
      fix i assume "i < Suc j"
      show "occupies segs (draw rnd (k + 2 * i))"
      proof (cases i)
        case 0 with True show ?thesis by simp
      next
        case (Suc i')
        with \<open>i < Suc j\<close> j(3) have "occupies segs (draw rnd (k + 2 + 2 * i'))" by simp
        then show ?thesis unfolding shift Suc .
      qed
    qed
    with j(1,2) show ?thesis unfolding shift by (intro exI[of _ "Suc j"]) blast
  qed
qed

lemma generatePeach_returns:
  "\<not> occupies segs (draw rnd (k + 2 * j)) \<Longrightarrow> \<exists>r. generatePeach rnd k segs = Some r"
proof (induction j arbitrary: k)
  case 0
  then show ?case by (simp add: generatePeach_free)
next
  case (Suc j)
  show ?case
  proof (cases "occupies segs (draw rnd k)")
    case False
    then show ?thesis by (simp add: generatePeach_free)
  next
    case True
    have "k + 2 + 2 * j = k + 2 * Suc j" by simp
    with Suc.prems have "\<not> occupies segs (draw rnd (k + 2 + 2 * j))" by simp
    from Suc.IH[OF this] show ?thesis using True by (simp add: generatePeach_busy)
  qed
qed

section \<open>Facts about doubles\<close>

lemma round_double_exact:
  "\<bar>m\<bar> < 2 ^ 53 \<Longrightarrow> - 1074 \<le> e \<Longrightarrow> round_double (Double m e) = Double m e"
proof -
  assume a: "\<bar>m\<bar> < 2 ^ 53" and b: "- 1074 \<le> e"
  from a have "bitlen \<bar>m\<bar> \<le> 53" by (simp add: bitlen_le_iff_power)
  with b show ?thesis by (simp add: round_double_def Let_def)
qed

text \<open>
  The rounding is seen at the double nearest to 0.95, which is a little less than 0.95: the
  exact product with 20 is below 19, the product of doubles is 19.
\<close>

lemma product_rounds_up:
  "floor_double (fmul (Double 4278419646001971 (- 52)) (double_of_int 20)) = 19"
  by code_simp

lemma div_pow_less:
  fixes a :: int
  assumes "a < c * 2 ^ k"
  shows "a div 2 ^ k < c"
proof (rule ccontr)
  assume "\<not> a div 2 ^ k < c"
  then have "c \<le> a div 2 ^ k" by simp
  then have "c * 2 ^ k \<le> a div 2 ^ k * 2 ^ k" by (intro mult_right_mono) simp_all
  moreover have "a div 2 ^ k * 2 ^ k + a mod 2 ^ k = a" by (rule div_mult_mod_eq)
  moreover have "0 \<le> a mod 2 ^ k" by simp
  ultimately show False using assms by linarith
qed

lemma rounded_twice:
  fixes M :: int
  assumes "0 \<le> M" and "0 < p"
  shows "2 * ((if 2 * (M mod p) > p \<or> (2 * (M mod p) = p \<and> odd (M div p))
              then M div p + 1 else M div p) * p) \<le> 2 * M + p"
proof -
  have d: "M div p * p + M mod p = M" by simp
  have r: "0 \<le> M mod p" using assms(2) by simp
  show ?thesis
  proof (cases "2 * (M mod p) > p \<or> (2 * (M mod p) = p \<and> odd (M div p))")
    case True
    then have h: "p \<le> 2 * (M mod p)" by auto
    have "(M div p + 1) * p = M - M mod p + p" using d by (simp add: algebra_simps)
    with h have "2 * ((M div p + 1) * p) \<le> 2 * M + p" by simp
    with True show ?thesis by (simp only: if_True)
  next
    case False
    have "M div p * p \<le> M" using d r by linarith
    with assms(2) have "2 * (M div p * p) \<le> 2 * M + p" by simp
    with False show ?thesis by (simp only: if_False)
  qed
qed

lemma round_double_pos:
  assumes "0 < m" and "s = max (bitlen m - 53) (- 1074 - e)" and "0 < s"
  shows "round_double (Double m e) =
     Double (if 2 * (m mod 2 ^ nat s) > 2 ^ nat s
                \<or> (2 * (m mod 2 ^ nat s) = 2 ^ nat s \<and> odd (m div 2 ^ nat s))
             then m div 2 ^ nat s + 1 else m div 2 ^ nat s) (e + s)"
proof -
  from assms(1) have a: "\<bar>m\<bar> = m" "sgn m = 1" by simp_all
  from assms(3) have n: "\<not> s \<le> 0" by simp
  show ?thesis
    unfolding round_double_def Let_def double.sel a assms(2)[symmetric] using n by simp
qed

text \<open>
  The coordinate of a draw is from 0 to 19. The largest double below 1 is \<open>1 - 2 ^ -53\<close>,
  its exact product with 20 is \<open>20 - 20 * 2 ^ -53\<close>, and the doubles below 20 are
  \<open>2 ^ -48\<close> apart, so the product is rounded to a double below 20.
\<close>

lemma scaled_range:
  assumes "unit_double d"
  shows "0 \<le> floor_double (fmul d (double_of_int 20))
         \<and> floor_double (fmul d (double_of_int 20)) < 20"
proof (cases d)
  case (Double m e)
  from assms Double have m0: "0 \<le> m" and m53: "m < 2 ^ 53" and e1: "- 1074 \<le> e"
    by (auto simp add: unit_double_def is_double_def)
  show ?thesis
  proof (cases "0 \<le> e")
    case True
    with assms Double have "m = 0" by (simp add: unit_double_def)
    with True Double show ?thesis
      by (simp add: fmul_def double_of_int_def round_double_exact floor_double_def)
  next
    case False
    define n where "n = nat (- e)"
    from False assms Double have mn: "m < 2 ^ n" by (simp add: unit_double_def n_def)
    from False have en: "e = - int n" by (simp add: n_def)
    define M where "M = m * 20"
    have M0: "0 \<le> M" using m0 by (simp add: M_def)
    have Mn: "M + 20 \<le> 20 * 2 ^ n" using mn by (simp add: M_def)
    have "M < 2 ^ 58" using m53 by (simp add: M_def)
    then have bl: "bitlen \<bar>M\<bar> \<le> 58" using M0 by (simp add: bitlen_le_iff_power)
    define s where "s = max (bitlen \<bar>M\<bar> - 53) (- 1074 - e)"
    have s5: "s \<le> 5" using bl e1 by (simp add: s_def)
    have f: "fmul d (double_of_int 20) = round_double (Double M e)"
      using Double by (simp add: fmul_def double_of_int_def M_def)
    show ?thesis
    proof (cases "s \<le> 0")
      case True
      then have "round_double (Double M e) = Double M e"
        by (simp add: round_double_def s_def Let_def)
      with f have "floor_double (fmul d (double_of_int 20)) = M div 2 ^ n"
        using False by (simp add: floor_double_def n_def)
      moreover have "M div 2 ^ n < 20" using Mn by (intro div_pow_less) simp
      moreover have "0 \<le> M div 2 ^ n" using M0 by (simp add: pos_imp_zdiv_nonneg_iff)
      ultimately show ?thesis by simp
    next
      case spos: False
      define t where "t = nat s"
      define p :: int where "p = 2 ^ t"
      define q' where "q' = (if 2 * (M mod p) > p \<or> (2 * (M mod p) = p \<and> odd (M div p))
              then M div p + 1 else M div p)"
      from spos have Mpos: "0 < M" using M0 e1 by (cases "M = 0") (auto simp: s_def)
      have st: "s = int t" using spos by (simp add: t_def)
      have p0: "0 < p" by (simp add: p_def)
      have "t \<le> 5" using s5 st by simp
      then have "p \<le> 2 ^ 5" unfolding p_def by (intro power_increasing) simp_all
      then have p32: "p \<le> 32" by simp
      have sM: "s = max (bitlen M - 53) (- 1074 - e)" using M0 by (simp add: s_def)
      have "0 < s" using spos by simp
      from round_double_pos[OF Mpos sM this]
      have rd: "round_double (Double M e) = Double q' (e + s)"
        unfolding q'_def p_def t_def .
      have q0: "0 \<le> q'" using M0 p0 by (simp add: q'_def pos_imp_zdiv_nonneg_iff)
      from rounded_twice[OF M0 p0] have "2 * (q' * p) \<le> 2 * M + p" by (simp add: q'_def)
      with p32 Mn have qp: "q' * p < 20 * 2 ^ n" by linarith
      show ?thesis
      proof (cases "0 \<le> e + s")
        case True
        define u where "u = nat (e + s)"
        from True en st have "t = n + u" by (simp add: u_def)
        then have "p = 2 ^ u * 2 ^ n" by (simp add: p_def power_add)
        with qp have "(q' * 2 ^ u) * 2 ^ n < 20 * 2 ^ n" by (simp add: mult.assoc)
        then have "q' * 2 ^ u < 20" by simp
        moreover have "floor_double (fmul d (double_of_int 20)) = q' * 2 ^ u"
          using f rd True by (simp add: floor_double_def u_def)
        moreover have "0 \<le> q' * 2 ^ u" using q0 by simp
        ultimately show ?thesis by simp
      next
        case False
        define u where "u = nat (- (e + s))"
        from False en st have "n = t + u" by (simp add: u_def)
        then have "(2::int) ^ n = p * 2 ^ u" by (simp add: p_def power_add)
        with qp have "q' * p < (20 * 2 ^ u) * p" by (simp add: mult.assoc mult.commute)
        with p0 have "q' < 20 * 2 ^ u" by simp
        then have "q' div 2 ^ u < 20" by (rule div_pow_less)
        moreover have "floor_double (fmul d (double_of_int 20)) = q' div 2 ^ u"
          using f rd False by (simp add: floor_double_def u_def)
        moreover have "0 \<le> q' div 2 ^ u" using q0 by (simp add: pos_imp_zdiv_nonneg_iff)
        ultimately show ?thesis by simp
      qed
    qed
  qed
qed

lemma draw_in_grid:
  assumes "in_unit rnd"
  shows "0 \<le> x (draw rnd k) \<and> x (draw rnd k) < GRID_SIZE \<and> 0 \<le> y (draw rnd k) \<and> y (draw rnd k) < GRID_SIZE"
proof -
  from assms have "unit_double (rnd k)" "unit_double (rnd (k + 1))"
    by (simp_all add: in_unit_def)
  from scaled_range[OF this(1)] scaled_range[OF this(2)] show ?thesis
    by (simp add: draw_def GRID_SIZE_def)
qed

lemma coordinate_mantissa:
  fixes v :: int
  shows "16 * v \<le> 5 * ((16 * v + 4) div 5) \<and> 5 * ((16 * v + 4) div 5) \<le> 16 * v + 4"
proof -
  have "5 * ((16 * v + 4) div 5) + (16 * v + 4) mod 5 = 16 * v + 4" by simp
  moreover have "0 \<le> (16 * v + 4) mod 5" "(16 * v + 4) mod 5 < 5" by simp_all
  ultimately show ?thesis by linarith
qed

lemma scaled_coordinate:
  assumes "0 \<le> v" and "v < 20"
  shows "floor_double (fmul (coordinate_double v) (double_of_int GRID_SIZE)) = v"
proof -
  define u where "u = (16 * v + 4) div 5"
  from coordinate_mantissa[of v] have b: "16 * v \<le> 5 * u" "5 * u \<le> 16 * v + 4"
    by (simp_all add: u_def)
  from assms b have "0 \<le> u" "u \<le> 61" by linarith+
  then have "\<bar>u * 20\<bar> < 2 ^ 53" by simp
  then have r: "round_double (Double (u * 20) (- 6)) = Double (u * 20) (- 6)"
    by (rule round_double_exact) simp
  have "u * 20 div 64 = v"
  proof (rule int_div_pos_eq[where r = "u * 20 - 64 * v"])
    show "u * 20 = 64 * v + (u * 20 - 64 * v)" by simp
    show "0 \<le> u * 20 - 64 * v" using b by linarith
    show "u * 20 - 64 * v < 64" using b by linarith
  qed
  moreover have "fmul (coordinate_double v) (double_of_int GRID_SIZE) = Double (u * 20) (- 6)"
    using r by (simp add: coordinate_double_def fmul_def double_of_int_def GRID_SIZE_def u_def)
  ultimately show ?thesis by (simp add: floor_double_def)
qed

lemma unit_coordinate:
  assumes "0 \<le> v" and "v < 20"
  shows "unit_double (coordinate_double v)"
proof -
  from coordinate_mantissa[of v] assms
  have "0 \<le> (16 * v + 4) div 5" "(16 * v + 4) div 5 < 64" by linarith+
  then show ?thesis by (simp add: unit_double_def is_double_def coordinate_double_def)
qed

lemma draw_constant_zero: "draw (constant_source 0) k = \<lparr>x = 0, y = 0\<rparr>"
  by (simp add: draw_def constant_source_def zero_double_def fmul_def double_of_int_def
      round_double_exact floor_double_def)

lemma in_unit_constant_zero: "in_unit (constant_source 0)"
  by (simp add: in_unit_def constant_source_def zero_double_def unit_double_def is_double_def)

lemma draw_coordinate_source:
  assumes "\<And>n. 0 \<le> c n \<and> c n < 20"
  shows "draw (coordinate_source c) k = \<lparr>x = c k, y = c (k + 1)\<rparr>"
  using assms by (simp add: draw_def coordinate_source_def scaled_coordinate)

lemma in_unit_coordinate_source:
  assumes "\<And>n. 0 \<le> c n \<and> c n < 20"
  shows "in_unit (coordinate_source c)"
  using assms by (simp add: in_unit_def coordinate_source_def unit_coordinate)

lemma row_coordinate_range: "0 \<le> row_coordinate n \<and> row_coordinate n < 20"
proof -
  have "n < 18 \<Longrightarrow> int (n div 2) \<le> 8" by simp
  then show ?thesis by (auto simp: row_coordinate_def)
qed

lemma draw_row: "draw row_source k = \<lparr>x = row_coordinate k, y = row_coordinate (k + 1)\<rparr>"
  unfolding row_source_def using row_coordinate_range by (rule draw_coordinate_source)

lemma sweep_coordinate_range: "0 \<le> sweep_coordinate n \<and> sweep_coordinate n < 20"
proof -
  have "(n div 2) mod 400 < 400" by simp
  then have "((n div 2) mod 400) div 20 < 20" by (simp add: less_mult_imp_div_less)
  then show ?thesis by (simp add: sweep_coordinate_def)
qed

lemma draw_sweep:
  "draw sweep_source k = \<lparr>x = sweep_coordinate k, y = sweep_coordinate (k + 1)\<rparr>"
  unfolding sweep_source_def using sweep_coordinate_range by (rule draw_coordinate_source)

lemma in_unit_sweep: "in_unit sweep_source"
  unfolding sweep_source_def using sweep_coordinate_range by (rule in_unit_coordinate_source)

text \<open>The sweep is fair: the cell \<open>(i, j)\<close> is the draw number \<open>20 * i + j\<close>.\<close>

lemma fair_sweep: "fair sweep_source 0"
  unfolding fair_def
proof (intro allI impI)
  fix p :: Position
  assume "in_grid p"
  then have r: "0 \<le> x p" "x p < 20" "0 \<le> y p" "y p < 20"
    by (auto simp: in_grid_def GRID_SIZE_def)
  define a where "a = nat (x p)"
  define b where "b = nat (y p)"
  from r have ab: "a < 20" "b < 20" "int a = x p" "int b = y p" by (simp_all add: a_def b_def)
  define j where "j = 20 * a + b"
  from ab have "j < 400" by (simp add: j_def)
  then have m: "(2 * j div 2) mod 400 = j" "((2 * j + 1) div 2) mod 400 = j" by simp_all
  from ab have d: "j div 20 = a" "j mod 20 = b" by (simp_all add: j_def)
  have "sweep_coordinate (2 * j) = int a" "sweep_coordinate (2 * j + 1) = int b"
    unfolding sweep_coordinate_def m d by simp_all
  then have "draw sweep_source (0 + 2 * j) = \<lparr>x = int a, y = int b\<rparr>"
    by (simp add: draw_sweep)
  with ab have "draw sweep_source (0 + 2 * j) = p" by simp
  then show "\<exists>j. draw sweep_source (0 + 2 * j) = p" ..
qed

lemma generatePeach_total:
  "eventually_free rnd k segs \<Longrightarrow> \<exists>r. generatePeach rnd k segs = Some r"
  unfolding eventually_free_def using generatePeach_returns by blast

section \<open>Facts about phases and ticks\<close>

lemma phase_ACTIVE_iff:
  "phase g = ACTIVE \<longleftrightarrow> isPlaying g \<and> \<not> gameOver g \<and> score g < MAX_PEACHES"
  by (simp add: phase_def isGameWon_def)

lemma phase_LOST_iff: "phase g = LOST \<longleftrightarrow> gameOver g \<and> score g < MAX_PEACHES"
  by (simp add: phase_def isGameWon_def)

lemma phase_WON_iff: "phase g = WON \<longleftrightarrow> score g \<ge> MAX_PEACHES"
  by (simp add: phase_def isGameWon_def)

lemma same_cell: "(x p = x q \<and> y p = y q) = (p = (q::Position))"
  by auto

lemma moveSnake_inactive: "phase g \<noteq> ACTIVE \<Longrightarrow> moveSnake rnd (g, k) = Some (g, k)"
  by (auto simp: phase_ACTIVE_iff moveSnake_def)

text \<open>A tick of a running game whose new head is inside the grid and off the snake.\<close>

lemma moveSnake_moving:
  assumes "phase g = ACTIVE" and "snake g = h # t"
    and "in_grid (advance (direction g) h)"
    and "\<not> occupies (snake g) (advance (direction g) h)"
  shows "moveSnake rnd (g, k) =
     (if advance (direction g) h = peach g
      then (if score g + 1 < MAX_PEACHES
            then (case generatePeach rnd k (advance (direction g) h # snake g) of
                    None \<Rightarrow> None
                  | Some r \<Rightarrow> Some (g\<lparr>snake := advance (direction g) h # snake g,
                                       score := score g + 1, peach := fst r\<rparr>, snd r))
            else Some (g\<lparr>snake := advance (direction g) h # snake g, score := score g + 1,
                         isPlaying := False\<rparr>, k))
      else Some (g\<lparr>snake := advance (direction g) h # butlast (snake g)\<rparr>, k))"
  using assms
  by (simp add: phase_ACTIVE_iff moveSnake_def in_grid_def Let_def same_cell
      split: option.split)

section \<open>Collisions\<close>

text \<open>
  C4, as the code has it: a tick of a running game whose new head is outside the grid sets
  \<open>gameOver\<close> and clears \<open>isPlaying\<close>, which is phase \<open>LOST\<close>, and changes nothing else: the
  snake, the peach, the score and the direction stay. No result is returned.
\<close>

theorem wall_collision_ends_game:
  assumes "phase g = ACTIVE" and "snake g = h # t"
    and "\<not> in_grid (advance (direction g) h)"
  shows "moveSnake rnd (g, k) = Some (g\<lparr>gameOver := True, isPlaying := False\<rparr>, k)
         \<and> phase (g\<lparr>gameOver := True, isPlaying := False\<rparr>) = LOST
         \<and> snake (g\<lparr>gameOver := True, isPlaying := False\<rparr>) = snake g"
  using assms by (simp add: phase_ACTIVE_iff phase_LOST_iff moveSnake_def in_grid_def Let_def)

text \<open>Scenario B of the specification: the snake \<open>[(0, 5)]\<close> heading \<open>LEFT\<close>.\<close>

theorem wall_collision_witness:
  "x (advance LEFT \<lparr>x = 0, y = 5\<rparr>) = - 1
   \<and> moveSnake (constant_source 0) (playing [\<lparr>x = 0, y = 5\<rparr>] LEFT \<lparr>x = 15, y = 10\<rparr> 0, 0)
       = Some (\<lparr>snake = [\<lparr>x = 0, y = 5\<rparr>], direction = LEFT, peach = \<lparr>x = 15, y = 10\<rparr>,
                 gameOver = True, score = 0, isPlaying = False\<rparr>, 0)
   \<and> phase \<lparr>snake = [\<lparr>x = 0, y = 5\<rparr>], direction = LEFT, peach = \<lparr>x = 15, y = 10\<rparr>,
                 gameOver = True, score = 0, isPlaying = False\<rparr> = LOST"
proof -
  let ?g = "playing [\<lparr>x = 0, y = 5\<rparr>] LEFT \<lparr>x = 15, y = 10\<rparr> 0"
  have a: "phase ?g = ACTIVE"
    by (simp add: phase_def isGameWon_def playing_def MAX_PEACHES_def)
  have b: "snake ?g = \<lparr>x = 0, y = 5\<rparr> # []" by (simp add: playing_def)
  have c: "\<not> in_grid (advance (direction ?g) \<lparr>x = 0, y = 5\<rparr>)"
    by (simp add: playing_def advance_def in_grid_def)
  from wall_collision_ends_game[OF a b c, of "constant_source 0" 0] show ?thesis
    by (simp add: playing_def advance_def)
qed

text \<open>
  Against C4 as stated: the tick that hits the top wall and the tick that hits the snake's
  own tail, from the same snake, leave the same values in every cell a tick writes. Nothing
  flags the wall.
\<close>

theorem wall_collision_leaves_no_reason:
  "\<not> in_grid (advance UP \<lparr>x = 5, y = 0\<rparr>)
   \<and> in_grid (advance DOWN \<lparr>x = 5, y = 0\<rparr>)
   \<and> occupies (snake (ledge DOWN)) (advance DOWN \<lparr>x = 5, y = 0\<rparr>)
   \<and> map_option (\<lambda>s. written (fst s)) (moveSnake (constant_source 0) (ledge UP, 0))
       = Some ([\<lparr>x = 5, y = 0\<rparr>, \<lparr>x = 6, y = 0\<rparr>, \<lparr>x = 6, y = 1\<rparr>, \<lparr>x = 5, y = 1\<rparr>],
               \<lparr>x = 12, y = 3\<rparr>, True, 3, False)
   \<and> map_option (\<lambda>s. written (fst s)) (moveSnake (constant_source 0) (ledge DOWN, 0))
       = map_option (\<lambda>s. written (fst s)) (moveSnake (constant_source 0) (ledge UP, 0))"
  by (simp add: moveSnake_def ledge_def playing_def advance_def in_grid_def occupies_def
      written_def GRID_SIZE_def MAX_PEACHES_def)

text \<open>
  C2, as the code has it: a tick of a running game whose new head is a cell of the snake,
  the tail included since the tail is still there when line 74 looks, sets \<open>gameOver\<close> and
  clears \<open>isPlaying\<close>, which is phase \<open>LOST\<close>, and changes nothing else. No result is
  returned.
\<close>

theorem self_collision_ends_game:
  assumes "phase g = ACTIVE" and "snake g = h # t"
    and "occupies (snake g) (advance (direction g) h)"
  shows "moveSnake rnd (g, k) = Some (g\<lparr>gameOver := True, isPlaying := False\<rparr>, k)
         \<and> phase (g\<lparr>gameOver := True, isPlaying := False\<rparr>) = LOST
         \<and> snake (g\<lparr>gameOver := True, isPlaying := False\<rparr>) = snake g"
  using assms by (simp add: phase_ACTIVE_iff phase_LOST_iff moveSnake_def Let_def)

text \<open>The new head is the tail cell, which a tick without collision would have removed.\<close>

theorem self_collision_witness:
  "last (snake (hook RIGHT)) = advance RIGHT \<lparr>x = 0, y = 5\<rparr>
   \<and> moveSnake (constant_source 0) (hook RIGHT, 0)
       = Some ((hook RIGHT)\<lparr>gameOver := True, isPlaying := False\<rparr>, 0)
   \<and> phase ((hook RIGHT)\<lparr>gameOver := True, isPlaying := False\<rparr>) = LOST"
proof -
  have a: "phase (hook RIGHT) = ACTIVE"
    by (simp add: phase_def isGameWon_def hook_def playing_def MAX_PEACHES_def)
  have b: "snake (hook RIGHT) = \<lparr>x = 0, y = 5\<rparr> # [\<lparr>x = 0, y = 6\<rparr>, \<lparr>x = 1, y = 6\<rparr>, \<lparr>x = 1, y = 5\<rparr>]"
    by (simp add: hook_def playing_def)
  have c: "occupies (snake (hook RIGHT)) (advance (direction (hook RIGHT)) \<lparr>x = 0, y = 5\<rparr>)"
    by (simp add: hook_def playing_def advance_def occupies_def)
  from self_collision_ends_game[OF a b c, of "constant_source 0" 0] show ?thesis
    by (simp add: hook_def playing_def advance_def)
qed

text \<open>
  Against C2 as stated: the tick that runs into the tail and the tick that hits the left
  wall, from the same snake, leave the same values in every cell a tick writes. Nothing
  reports a collision of the snake with itself.
\<close>

theorem self_collision_leaves_no_reason:
  "occupies (snake (hook RIGHT)) (advance RIGHT \<lparr>x = 0, y = 5\<rparr>)
   \<and> in_grid (advance RIGHT \<lparr>x = 0, y = 5\<rparr>)
   \<and> \<not> in_grid (advance LEFT \<lparr>x = 0, y = 5\<rparr>)
   \<and> map_option (\<lambda>s. written (fst s)) (moveSnake (constant_source 0) (hook RIGHT, 0))
       = Some ([\<lparr>x = 0, y = 5\<rparr>, \<lparr>x = 0, y = 6\<rparr>, \<lparr>x = 1, y = 6\<rparr>, \<lparr>x = 1, y = 5\<rparr>],
               \<lparr>x = 7, y = 7\<rparr>, True, 3, False)
   \<and> map_option (\<lambda>s. written (fst s)) (moveSnake (constant_source 0) (hook RIGHT, 0))
       = map_option (\<lambda>s. written (fst s)) (moveSnake (constant_source 0) (hook LEFT, 0))"
  by (simp add: moveSnake_def hook_def playing_def advance_def in_grid_def occupies_def
      written_def GRID_SIZE_def MAX_PEACHES_def)

section \<open>Growth\<close>

text \<open>
  C3: a tick of a running game that hits neither wall nor snake leaves the snake one
  segment longer when the new head is the peach, and as long as it was otherwise. The tick
  returns unless it has to place a new peach and the random source never draws a free cell.
\<close>

theorem growth_by_one_on_eating:
  assumes "phase g = ACTIVE" and "snake g = h # t"
    and "in_grid (advance (direction g) h)"
    and "\<not> occupies (snake g) (advance (direction g) h)"
  shows "(\<forall>g' k'. moveSnake rnd (g, k) = Some (g', k') \<longrightarrow>
            length (snake g') =
              (if advance (direction g) h = peach g then length (snake g) + 1
               else length (snake g)))
         \<and> ((advance (direction g) h = peach g \<and> score g + 1 < MAX_PEACHES \<longrightarrow>
               eventually_free rnd k (advance (direction g) h # snake g)) \<longrightarrow>
             (\<exists>s'. moveSnake rnd (g, k) = Some s'))"
proof (intro conjI allI impI)
  fix g' k'
  assume "moveSnake rnd (g, k) = Some (g', k')"
  with moveSnake_moving[OF assms, of rnd k] assms(2)
  show "length (snake g') =
      (if advance (direction g) h = peach g then length (snake g) + 1 else length (snake g))"
    by (auto split: if_splits option.splits)
next
  assume sp: "advance (direction g) h = peach g \<and> score g + 1 < MAX_PEACHES \<longrightarrow>
       eventually_free rnd k (advance (direction g) h # snake g)"
  show "\<exists>s'. moveSnake rnd (g, k) = Some s'"
  proof (cases "advance (direction g) h = peach g \<and> score g + 1 < MAX_PEACHES")
    case True
    with sp generatePeach_total obtain r where
      "generatePeach rnd k (advance (direction g) h # snake g) = Some r" by blast
    with True moveSnake_moving[OF assms, of rnd k] show ?thesis by simp
  next
    case False
    with moveSnake_moving[OF assms, of rnd k] show ?thesis by auto
  qed
qed

text \<open>
  Scenario A of the specification: the snake \<open>[(10, 10)]\<close> heading \<open>RIGHT\<close> with the peach
  at \<open>(11, 10)\<close>; the next peach is drawn at \<open>(0, 0)\<close>.
\<close>

theorem growth_witness:
  "moveSnake (constant_source 0) (playing [\<lparr>x = 10, y = 10\<rparr>] RIGHT \<lparr>x = 11, y = 10\<rparr> 0, 0)
     = Some (playing [\<lparr>x = 11, y = 10\<rparr>, \<lparr>x = 10, y = 10\<rparr>] RIGHT \<lparr>x = 0, y = 0\<rparr> 1, 2)
   \<and> length (snake (playing [\<lparr>x = 11, y = 10\<rparr>, \<lparr>x = 10, y = 10\<rparr>] RIGHT \<lparr>x = 0, y = 0\<rparr> 1))
       = length (snake (playing [\<lparr>x = 10, y = 10\<rparr>] RIGHT \<lparr>x = 11, y = 10\<rparr> 0)) + 1"
proof -
  let ?g = "playing [\<lparr>x = 10, y = 10\<rparr>] RIGHT \<lparr>x = 11, y = 10\<rparr> 0"
  let ?rnd = "constant_source 0"
  have a: "phase ?g = ACTIVE"
    by (simp add: phase_def isGameWon_def playing_def MAX_PEACHES_def)
  have b: "snake ?g = \<lparr>x = 10, y = 10\<rparr> # []" by (simp add: playing_def)
  have c: "in_grid (advance (direction ?g) \<lparr>x = 10, y = 10\<rparr>)"
    by (simp add: playing_def advance_def in_grid_def GRID_SIZE_def)
  have d: "\<not> occupies (snake ?g) (advance (direction ?g) \<lparr>x = 10, y = 10\<rparr>)"
    by (simp add: playing_def advance_def occupies_def)
  have e: "moveSnake ?rnd (?g, 0)
     = Some (playing [\<lparr>x = 11, y = 10\<rparr>, \<lparr>x = 10, y = 10\<rparr>] RIGHT \<lparr>x = 0, y = 0\<rparr> 1, 2)"
    by (simp add: moveSnake_def playing_def advance_def occupies_def generatePeach_free
        draw_constant_zero GRID_SIZE_def MAX_PEACHES_def)
  from growth_by_one_on_eating[OF a b c d, of ?rnd 0] e show ?thesis
    by (simp add: playing_def advance_def)
qed

section \<open>Ticks outside the running phase\<close>

text \<open>
  C7: in a state whose phase is not \<open>ACTIVE\<close>, so in \<open>WON\<close>, \<open>LOST\<close> and \<open>IDLE\<close>, any
  number of ticks returns the state as it was: snake, peach, score and all other cells.
\<close>

theorem tick_outside_ACTIVE_is_noop:
  assumes "phase g \<noteq> ACTIVE"
  shows "exec rnd (replicate n Tick) (g, k) = Some (g, k)"
proof (induction n)
  case 0
  show ?case by simp
next
  case (Suc n)
  from assms have "step rnd Tick (g, k) = Some (g, k)"
    by (simp add: step_def moveSnake_inactive)
  with Suc show ?case by simp
qed

theorem tick_outside_ACTIVE_witness:
  "phase ((hook LEFT)\<lparr>gameOver := True, isPlaying := False\<rparr>) = LOST
   \<and> exec (constant_source 0) (replicate 3 Tick) ((hook LEFT)\<lparr>gameOver := True, isPlaying := False\<rparr>, 0)
       = Some ((hook LEFT)\<lparr>gameOver := True, isPlaying := False\<rparr>, 0)"
proof -
  have l: "phase ((hook LEFT)\<lparr>gameOver := True, isPlaying := False\<rparr>) = LOST"
    by (simp add: phase_def isGameWon_def hook_def playing_def MAX_PEACHES_def)
  then have "phase ((hook LEFT)\<lparr>gameOver := True, isPlaying := False\<rparr>) \<noteq> ACTIVE" by simp
  from tick_outside_ACTIVE_is_noop[OF this, of "constant_source 0" 3 0] l show ?thesis by simp
qed

section \<open>Direction input between ticks\<close>

text \<open>
  C5: an input that asks for the opposite of the stored direction changes nothing, through
  the touch buttons and through the keyboard alike, and the next tick is the tick the game
  would have made without it: if it moves, the new head is the old head advanced in the
  unchanged direction.
\<close>

theorem reversal_is_ignored:
  assumes "newDirection = opposite (direction g)"
  shows "handleMobileControl newDirection g = g
         \<and> (\<forall>eventKey. toLowerCase eventKey = key_of newDirection \<longrightarrow>
                handleKeyPress eventKey g = g)
         \<and> exec rnd [Touch newDirection, Tick] (g, k) = moveSnake rnd (g, k)
         \<and> exec rnd [KeyDown (key_of newDirection), Tick] (g, k) = moveSnake rnd (g, k)
         \<and> (phase g = ACTIVE \<and> snake g = h # t \<and> in_grid (advance (direction g) h)
              \<and> \<not> occupies (snake g) (advance (direction g) h) \<longrightarrow>
             (\<forall>g' k'. exec rnd [Touch newDirection, Tick] (g, k) = Some (g', k') \<longrightarrow>
                       hd (snake g') = advance (direction g) h)
             \<and> ((advance (direction g) h = peach g \<and> score g + 1 < MAX_PEACHES \<longrightarrow>
                    eventually_free rnd k (advance (direction g) h # snake g)) \<longrightarrow>
                 (\<exists>s'. exec rnd [Touch newDirection, Tick] (g, k) = Some s')))"
proof -
  have a: "handleMobileControl newDirection g = g"
    using assms by (cases "direction g") (simp_all add: handleMobileControl_def opposite_def)
  have b: "handleKeyPress eventKey g = g" if "toLowerCase eventKey = key_of newDirection"
    for eventKey
    using assms that
    by (cases "direction g") (simp_all add: handleKeyPress_def opposite_def key_of_def)
  have b': "handleKeyPress (key_of newDirection) g = g"
    by (rule b) (cases newDirection; simp add: key_of_def toLowerCase_def)
  have c: "exec rnd [Touch newDirection, Tick] (g, k) = moveSnake rnd (g, k)"
    by (simp add: step_def a split: option.split)
  have d: "exec rnd [KeyDown (key_of newDirection), Tick] (g, k) = moveSnake rnd (g, k)"
    by (simp add: step_def b' split: option.split)
  have e: "(\<forall>g' k'. moveSnake rnd (g, k) = Some (g', k') \<longrightarrow>
                       hd (snake g') = advance (direction g) h)
             \<and> ((advance (direction g) h = peach g \<and> score g + 1 < MAX_PEACHES \<longrightarrow>
                    eventually_free rnd k (advance (direction g) h # snake g)) \<longrightarrow>
                 (\<exists>s'. moveSnake rnd (g, k) = Some s'))"
    if m: "phase g = ACTIVE" "snake g = h # t" "in_grid (advance (direction g) h)"
       "\<not> occupies (snake g) (advance (direction g) h)"
  proof (intro conjI allI impI)
    fix g' k'
    assume "moveSnake rnd (g, k) = Some (g', k')"
    with moveSnake_moving[OF m, of rnd k] m(2)
    show "hd (snake g') = advance (direction g) h"
      by (auto split: if_splits option.splits)
  next
    assume sp: "advance (direction g) h = peach g \<and> score g + 1 < MAX_PEACHES \<longrightarrow>
       eventually_free rnd k (advance (direction g) h # snake g)"
    show "\<exists>s'. moveSnake rnd (g, k) = Some s'"
    proof (cases "advance (direction g) h = peach g \<and> score g + 1 < MAX_PEACHES")
      case True
      with sp generatePeach_total obtain r where
        "generatePeach rnd k (advance (direction g) h # snake g) = Some r" by blast
      with True moveSnake_moving[OF m, of rnd k] show ?thesis by simp
    next
      case False
      with moveSnake_moving[OF m, of rnd k] show ?thesis by auto
    qed
  qed
  from a b e show ?thesis unfolding c d by blast
qed

text \<open>
  Scenario C of the specification: the snake \<open>[(5, 5), (4, 5), (3, 5)]\<close> heading \<open>RIGHT\<close>
  is told to go \<open>LEFT\<close> and moves its head to \<open>(6, 5)\<close>.
\<close>

theorem reversal_witness:
  "LEFT = opposite RIGHT
   \<and> handleMobileControl LEFT
        (playing [\<lparr>x = 5, y = 5\<rparr>, \<lparr>x = 4, y = 5\<rparr>, \<lparr>x = 3, y = 5\<rparr>] RIGHT \<lparr>x = 15, y = 10\<rparr> 2)
       = playing [\<lparr>x = 5, y = 5\<rparr>, \<lparr>x = 4, y = 5\<rparr>, \<lparr>x = 3, y = 5\<rparr>] RIGHT \<lparr>x = 15, y = 10\<rparr> 2
   \<and> toLowerCase ''A'' = key_of LEFT
   \<and> handleKeyPress ''A''
        (playing [\<lparr>x = 5, y = 5\<rparr>, \<lparr>x = 4, y = 5\<rparr>, \<lparr>x = 3, y = 5\<rparr>] RIGHT \<lparr>x = 15, y = 10\<rparr> 2)
       = playing [\<lparr>x = 5, y = 5\<rparr>, \<lparr>x = 4, y = 5\<rparr>, \<lparr>x = 3, y = 5\<rparr>] RIGHT \<lparr>x = 15, y = 10\<rparr> 2
   \<and> exec (constant_source 0) [Touch LEFT, Tick]
        (playing [\<lparr>x = 5, y = 5\<rparr>, \<lparr>x = 4, y = 5\<rparr>, \<lparr>x = 3, y = 5\<rparr>] RIGHT \<lparr>x = 15, y = 10\<rparr> 2, 0)
       = Some (playing [\<lparr>x = 6, y = 5\<rparr>, \<lparr>x = 5, y = 5\<rparr>, \<lparr>x = 4, y = 5\<rparr>] RIGHT \<lparr>x = 15, y = 10\<rparr> 2, 0)"
proof -
  let ?g = "playing [\<lparr>x = 5, y = 5\<rparr>, \<lparr>x = 4, y = 5\<rparr>, \<lparr>x = 3, y = 5\<rparr>] RIGHT \<lparr>x = 15, y = 10\<rparr> 2"
  let ?g' = "playing [\<lparr>x = 6, y = 5\<rparr>, \<lparr>x = 5, y = 5\<rparr>, \<lparr>x = 4, y = 5\<rparr>] RIGHT \<lparr>x = 15, y = 10\<rparr> 2"
  have o: "LEFT = opposite RIGHT" by (simp add: opposite_def)
  have a: "LEFT = opposite (direction ?g)" by (simp add: playing_def opposite_def)
  have m: "moveSnake (constant_source 0) (?g, 0) = Some (?g', 0)"
    by (simp add: moveSnake_def playing_def advance_def occupies_def GRID_SIZE_def
        MAX_PEACHES_def)
  have l: "toLowerCase ''A'' = key_of LEFT" by code_simp
  note r = reversal_is_ignored[OF a, of "constant_source 0" 0 "\<lparr>x = 5, y = 5\<rparr>"
      "[\<lparr>x = 4, y = 5\<rparr>, \<lparr>x = 3, y = 5\<rparr>]"]
  from r have t: "handleMobileControl LEFT ?g = ?g" by (rule conjunct1)
  from r l have k: "handleKeyPress ''A'' ?g = ?g" by blast
  from r have "exec (constant_source 0) [Touch LEFT, Tick] (?g, 0)
      = moveSnake (constant_source 0) (?g, 0)" by blast
  with m have e: "exec (constant_source 0) [Touch LEFT, Tick] (?g, 0) = Some (?g', 0)"
    by (simp only:)
  from o t l k e show ?thesis by (intro conjI)
qed

text \<open>
  C10: each input is checked against the stored direction, and an accepted input replaces
  the stored direction at once. While the direction is \<open>RIGHT\<close>, \<open>UP\<close> is accepted and then
  \<open>LEFT\<close> is accepted against \<open>UP\<close>. For a snake of one segment, a tick to the right, the
  two inputs and one more tick bring the head back to the cell it came from.
\<close>

theorem two_inputs_between_ticks_reverse:
  assumes "phase g = ACTIVE" and "snake g = [h]" and "direction g = RIGHT"
    and "in_grid h" and "in_grid (advance RIGHT h)"
    and "peach g \<noteq> h" and "peach g \<noteq> advance RIGHT h"
  shows "exec rnd [Tick] (g, k) = Some (g\<lparr>snake := [advance RIGHT h]\<rparr>, k)
         \<and> exec rnd [Tick, Touch UP] (g, k)
             = Some (g\<lparr>snake := [advance RIGHT h], direction := UP\<rparr>, k)
         \<and> exec rnd [Tick, Touch UP, Touch LEFT] (g, k)
             = Some (g\<lparr>snake := [advance RIGHT h], direction := LEFT\<rparr>, k)
         \<and> exec rnd [Tick, Touch UP, Touch LEFT, Tick] (g, k)
             = Some (g\<lparr>snake := [advance LEFT (advance RIGHT h)], direction := LEFT\<rparr>, k)
         \<and> exec rnd [Tick, KeyDown ''w'', KeyDown ''a'', Tick] (g, k)
             = Some (g\<lparr>snake := [advance LEFT (advance RIGHT h)], direction := LEFT\<rparr>, k)
         \<and> advance LEFT (advance RIGHT h) = h"
proof -
  have ret: "advance LEFT (advance RIGHT h) = h" by (simp add: advance_def)
  have ne: "advance RIGHT h \<noteq> h" by (cases h) (simp add: advance_def)
  have act: "isPlaying g" "\<not> gameOver g" "score g < MAX_PEACHES"
    using assms(1) by (simp_all add: phase_ACTIVE_iff)
  have t1: "moveSnake rnd (g, k) = Some (g\<lparr>snake := [advance RIGHT h]\<rparr>, k)"
    using assms act ne
    by (auto simp: moveSnake_def Let_def in_grid_def occupies_def same_cell)
  let ?g1 = "g\<lparr>snake := [advance RIGHT h]\<rparr>"
  have u: "handleMobileControl UP ?g1 = ?g1\<lparr>direction := UP\<rparr>"
    using assms act by (simp add: handleMobileControl_def)
  have l: "handleMobileControl LEFT (?g1\<lparr>direction := UP\<rparr>) = ?g1\<lparr>direction := LEFT\<rparr>"
    using act by (simp add: handleMobileControl_def)
  have w: "handleKeyPress ''w'' ?g1 = ?g1\<lparr>direction := UP\<rparr>"
    using assms act by (simp add: handleKeyPress_def toLowerCase_def)
  have a: "handleKeyPress ''a'' (?g1\<lparr>direction := UP\<rparr>) = ?g1\<lparr>direction := LEFT\<rparr>"
    using act by (simp add: handleKeyPress_def toLowerCase_def)
  have t2: "moveSnake rnd (?g1\<lparr>direction := LEFT\<rparr>, k)
      = Some (g\<lparr>snake := [advance LEFT (advance RIGHT h)], direction := LEFT\<rparr>, k)"
    using assms act ne
    by (auto simp: moveSnake_def Let_def in_grid_def occupies_def same_cell ret)
  from t1 u l w a t2 ret show ?thesis by (simp add: step_def)
qed

text \<open>The starting snake \<open>[(10, 10)]\<close>: right to \<open>(11, 10)\<close> and back to \<open>(10, 10)\<close>.\<close>

theorem two_inputs_witness:
  "exec (constant_source 0) [Tick, Touch UP, Touch LEFT] (playing INITIAL_SNAKE RIGHT \<lparr>x = 15, y = 10\<rparr> 0, 0)
     = Some (playing [\<lparr>x = 11, y = 10\<rparr>] LEFT \<lparr>x = 15, y = 10\<rparr> 0, 0)
   \<and> exec (constant_source 0) [Tick, Touch UP, Touch LEFT, Tick] (playing INITIAL_SNAKE RIGHT \<lparr>x = 15, y = 10\<rparr> 0, 0)
     = Some (playing [\<lparr>x = 10, y = 10\<rparr>] LEFT \<lparr>x = 15, y = 10\<rparr> 0, 0)"
proof -
  let ?g = "playing INITIAL_SNAKE RIGHT \<lparr>x = 15, y = 10\<rparr> 0"
  let ?h = "\<lparr>x = 10, y = 10\<rparr>"
  have a: "phase ?g = ACTIVE"
    by (simp add: phase_def isGameWon_def playing_def MAX_PEACHES_def)
  have b: "snake ?g = [?h]" by (simp add: playing_def INITIAL_SNAKE_def)
  have c: "direction ?g = RIGHT" by (simp add: playing_def)
  have d: "in_grid ?h" by (simp add: in_grid_def GRID_SIZE_def)
  have e: "in_grid (advance RIGHT ?h)" by (simp add: in_grid_def advance_def GRID_SIZE_def)
  have f: "peach ?g \<noteq> ?h" by (simp add: playing_def)
  have g: "peach ?g \<noteq> advance RIGHT ?h" by (simp add: playing_def advance_def)
  from two_inputs_between_ticks_reverse[OF a b c d e f g, of "constant_source 0" 0]
  show ?thesis by (simp add: playing_def advance_def)
qed

section \<open>The peach loop\<close>

lemma generatePeach_None:
  "\<not> eventually_free rnd k segs \<Longrightarrow> generatePeach rnd k segs = None"
proof (rule ccontr)
  assume nf: "\<not> eventually_free rnd k segs" and "generatePeach rnd k segs \<noteq> None"
  then obtain r where "generatePeach rnd k segs = Some r" by auto
  from generatePeach_Some[OF this] nf show False by (auto simp: eventually_free_def)
qed

lemma in_concat_rows:
  "a \<in> set xs \<Longrightarrow> b \<in> set ys \<Longrightarrow> f a b \<in> set (concat (map (\<lambda>i. map (f i) ys) xs))"
  by (induction xs) auto

lemma full_grid_occupied:
  assumes "in_grid p"
  shows "occupies full_grid p"
proof -
  from assms have i: "x p \<in> set [0..19]" and j: "y p \<in> set [0..19]"
    unfolding set_upto in_grid_def GRID_SIZE_def by auto
  have "\<lparr>x = x p, y = y p\<rparr> \<in> set full_grid"
    unfolding full_grid_def by (rule in_concat_rows[OF i j])
  moreover have "\<lparr>x = x p, y = y p\<rparr> = p" by simp
  ultimately have "p \<in> set full_grid" by (simp only:)
  then show ?thesis unfolding occupies_iff .
qed

lemma length_concat_rows:
  "length (concat (map (\<lambda>i. map (f i) ys) xs)) = length xs * length ys"
  by (induction xs) simp_all

lemma length_full_grid: "int (length full_grid) = GRID_SIZE * GRID_SIZE"
  unfolding full_grid_def length_concat_rows length_upto GRID_SIZE_def by simp

text \<open>The grid has \<open>GRID_SIZE * GRID_SIZE\<close> cells, so fewer occupied cells leave one free.\<close>

lemma card_grid: "card {p. in_grid p} = 400"
proof -
  have "{p. in_grid p} = (\<lambda>(i, j). \<lparr>x = i, y = j\<rparr>) ` ({0..19} \<times> {0..19})"
  proof (intro set_eqI iffI)
    fix p :: Position
    assume "p \<in> {p. in_grid p}"
    then have "(x p, y p) \<in> {0..19} \<times> {0..19}" by (auto simp: in_grid_def GRID_SIZE_def)
    moreover have "p = (\<lambda>(i, j). \<lparr>x = i, y = j\<rparr>) (x p, y p)" by simp
    ultimately show "p \<in> (\<lambda>(i, j). \<lparr>x = i, y = j\<rparr>) ` ({0..19} \<times> {0..19})" by (rule image_eqI[rotated])
  next
    fix p :: Position
    assume "p \<in> (\<lambda>(i, j). \<lparr>x = i, y = j\<rparr>) ` ({0..19} \<times> {0..19})"
    then show "p \<in> {p. in_grid p}" by (auto simp: in_grid_def GRID_SIZE_def)
  qed
  moreover have "inj_on (\<lambda>(i, j). \<lparr>x = i, y = j\<rparr>) ({0..19} \<times> {0..19})"
    by (auto simp: inj_on_def)
  ultimately have "card {p. in_grid p} = card (({0..19} :: int set) \<times> ({0..19} :: int set))"
    by (simp add: card_image)
  then show ?thesis by (simp add: card_cartesian_product)
qed

lemma free_cell_exists:
  assumes "card (set occupied) < nat (GRID_SIZE * GRID_SIZE)"
  shows "\<exists>p. in_grid p \<and> \<not> occupies occupied p"
proof (rule ccontr)
  assume "\<not> (\<exists>p. in_grid p \<and> \<not> occupies occupied p)"
  then have "{p. in_grid p} \<subseteq> set occupied" by (auto simp: occupies_iff)
  then have "card {p. in_grid p} \<le> card (set occupied)" by (intro card_mono) simp_all
  with assms show False by (simp add: card_grid GRID_SIZE_def)
qed

lemma fair_eventually_free:
  assumes "fair rnd k" and "in_grid p" and "\<not> occupies occupied p"
  shows "eventually_free rnd k occupied"
proof -
  from assms(1,2) obtain j where "draw rnd (k + 2 * j) = p" unfolding fair_def by blast
  with assms(3) show ?thesis unfolding eventually_free_def by auto
qed

text \<open>
  C6, as the code has it, for a random source of doubles in \<open>[0, 1)\<close>. With fewer than
  \<open>GRID_SIZE * GRID_SIZE\<close> occupied cells and a fair random source the loop returns, and
  what it returns is the first free cell drawn, which is a cell of the grid. When the whole
  grid is occupied the loop never returns, whatever the random source: the code has no
  guard and no error for a full grid.
\<close>

theorem generatePeach_first_free_draw:
  assumes "in_unit rnd"
  shows "(card (set occupied) < nat (GRID_SIZE * GRID_SIZE) \<and> fair rnd k \<longrightarrow>
            (\<exists>j. generatePeach rnd k occupied = Some (draw rnd (k + 2 * j), k + 2 * j + 2)
                 \<and> in_grid (draw rnd (k + 2 * j))
                 \<and> \<not> occupies occupied (draw rnd (k + 2 * j))
                 \<and> (\<forall>i<j. occupies occupied (draw rnd (k + 2 * i)))))
         \<and> ((\<forall>p. in_grid p \<longrightarrow> occupies occupied p) \<longrightarrow>
              generatePeach rnd k occupied = None)"
proof (intro conjI impI)
  have g: "in_grid (draw rnd n)" for n
    using draw_in_grid[OF assms, of n] by (auto simp: in_grid_def)
  {
    assume a: "card (set occupied) < nat (GRID_SIZE * GRID_SIZE) \<and> fair rnd k"
    then obtain p where "in_grid p" "\<not> occupies occupied p" using free_cell_exists by blast
    with a have "eventually_free rnd k occupied" using fair_eventually_free by blast
    from generatePeach_total[OF this] obtain r where r: "generatePeach rnd k occupied = Some r"
      by blast
    from generatePeach_Some[OF r] obtain j where
      j: "r = (draw rnd (k + 2 * j), k + 2 * j + 2)"
         "\<not> occupies occupied (draw rnd (k + 2 * j))"
         "\<forall>i<j. occupies occupied (draw rnd (k + 2 * i))"
      by blast
    with r g[of "k + 2 * j"]
    show "\<exists>j. generatePeach rnd k occupied = Some (draw rnd (k + 2 * j), k + 2 * j + 2)
                 \<and> in_grid (draw rnd (k + 2 * j))
                 \<and> \<not> occupies occupied (draw rnd (k + 2 * j))
                 \<and> (\<forall>i<j. occupies occupied (draw rnd (k + 2 * i)))" by blast
  }
  {
    assume f: "\<forall>p. in_grid p \<longrightarrow> occupies occupied p"
    with g have "\<not> eventually_free rnd k occupied" by (simp add: eventually_free_def)
    then show "generatePeach rnd k occupied = None" by (rule generatePeach_None)
  }
qed

text \<open>
  The sweep draws \<open>(0, 0)\<close>, \<open>(0, 1)\<close>, \<open>(0, 2)\<close> first. With the first two occupied the
  loop returns the third after six random numbers; with the full grid it never returns.
\<close>

theorem generatePeach_witness:
  "in_unit sweep_source
   \<and> fair sweep_source 0
   \<and> card (set [\<lparr>x = 0, y = 0\<rparr>, \<lparr>x = 0, y = 1\<rparr>]) < nat (GRID_SIZE * GRID_SIZE)
   \<and> generatePeach sweep_source 0 [\<lparr>x = 0, y = 0\<rparr>, \<lparr>x = 0, y = 1\<rparr>]
       = Some (\<lparr>x = 0, y = 2\<rparr>, 6)
   \<and> in_grid \<lparr>x = 0, y = 2\<rparr>
   \<and> generatePeach sweep_source 0 full_grid = None"
proof -
  let ?occ = "[\<lparr>x = 0, y = 0\<rparr>, \<lparr>x = 0, y = 1\<rparr>]"
  have c: "card (set ?occ) < nat (GRID_SIZE * GRID_SIZE)" by (simp add: GRID_SIZE_def)
  have f: "\<forall>p. in_grid p \<longrightarrow> occupies full_grid p"
    using full_grid_occupied by blast
  have e: "generatePeach sweep_source 0 ?occ = Some (\<lparr>x = 0, y = 2\<rparr>, 6)"
    by (simp add: generatePeach_free generatePeach_busy draw_sweep sweep_coordinate_def
        occupies_def)
  have g: "in_grid \<lparr>x = 0, y = 2\<rparr>" by (simp add: in_grid_def GRID_SIZE_def)
  from generatePeach_first_free_draw[OF in_unit_sweep, of ?occ 0] c fair_sweep
  have "\<exists>j. generatePeach sweep_source 0 ?occ
            = Some (draw sweep_source (0 + 2 * j), 0 + 2 * j + 2)" by blast
  moreover from generatePeach_first_free_draw[OF in_unit_sweep, of full_grid 0] f
  have "generatePeach sweep_source 0 full_grid = None" by blast
  ultimately show ?thesis using in_unit_sweep fair_sweep c e g by simp
qed

text \<open>
  Against C6 as stated: with all 400 cells occupied the loop runs forever instead of
  failing, here under the fair sweep.
\<close>

theorem generatePeach_can_loop_forever:
  "int (length full_grid) = GRID_SIZE * GRID_SIZE
   \<and> in_unit sweep_source
   \<and> fair sweep_source 0
   \<and> generatePeach sweep_source 0 full_grid = None"
proof -
  have "occupies full_grid (draw sweep_source n)" for n
    using draw_in_grid[OF in_unit_sweep, of n]
    by (intro full_grid_occupied) (auto simp: in_grid_def)
  then have "\<not> eventually_free sweep_source 0 full_grid"
    by (simp add: eventually_free_def)
  then have "generatePeach sweep_source 0 full_grid = None"
    by (rule generatePeach_None)
  with length_full_grid in_unit_sweep fair_sweep show ?thesis by simp
qed

section \<open>Reset\<close>

text \<open>
  C8, as the code has it: \<open>resetGame\<close> puts every cell back to the value the component
  started with, whatever the state was: the snake \<open>[(10, 10)]\<close>, direction \<open>RIGHT\<close>, score
  0, phase \<open>IDLE\<close>, and the peach at the fixed cell \<open>(15, 10)\<close>, which is off the starting
  snake. It draws no random number.
\<close>

theorem resetGame_restores_defaults:
  "resetGame g = initial_game
   \<and> snake (resetGame g) = [\<lparr>x = 10, y = 10\<rparr>]
   \<and> direction (resetGame g) = RIGHT
   \<and> score (resetGame g) = 0
   \<and> phase (resetGame g) = IDLE
   \<and> peach (resetGame g) = \<lparr>x = 15, y = 10\<rparr>
   \<and> \<not> occupies (snake (resetGame g)) (peach (resetGame g))
   \<and> step rnd ResetClick (g, k) = Some (initial_game, k)"
  by (simp add: resetGame_def initial_game_def INITIAL_SNAKE_def INITIAL_DIRECTION_def
      phase_def isGameWon_def MAX_PEACHES_def occupies_def step_def)

text \<open>
  Against C8 as stated: a fresh peach for the starting snake, from a source that always
  draws \<open>(0, 0)\<close>, would be at \<open>(0, 0)\<close> and use up two random numbers; the reset leaves the
  peach at \<open>(15, 10)\<close> and the random source where it was.
\<close>

theorem resetGame_does_not_spawn:
  "generatePeach (constant_source 0) 0 INITIAL_SNAKE = Some (\<lparr>x = 0, y = 0\<rparr>, 2)
   \<and> step (constant_source 0) ResetClick (hook RIGHT, 0) = Some (initial_game, 0)
   \<and> peach initial_game = \<lparr>x = 15, y = 10\<rparr>"
  by (simp add: generatePeach_free draw_constant_zero occupies_def INITIAL_SNAKE_def
      step_def resetGame_def initial_game_def hook_def playing_def INITIAL_DIRECTION_def GRID_SIZE_def)

section \<open>What every run preserves\<close>

lemma exec_invariant:
  assumes pres: "\<And>e g k g' k'. P g \<Longrightarrow> step rnd e (g, k) = Some (g', k') \<Longrightarrow> P g'"
    and "P g" and "exec rnd es (g, k) = Some (g', k')"
  shows "P g'"
  using assms(2,3)
proof (induction es arbitrary: g k)
  case Nil
  then show ?case by simp
next
  case (Cons e es)
  from Cons.prems(2) obtain g1 k1 where
    s: "step rnd e (g, k) = Some (g1, k1)" and r: "exec rnd es (g1, k1) = Some (g', k')"
    by (auto split: option.splits)
  from pres[OF Cons.prems(1) s] have "P g1" .
  from Cons.IH[OF this r] show ?case .
qed

lemma handleKeyPress_cells:
  "snake (handleKeyPress key g) = snake g \<and> peach (handleKeyPress key g) = peach g
   \<and> score (handleKeyPress key g) = score g"
  by (simp add: handleKeyPress_def Let_def)

lemma handleMobileControl_cells:
  "snake (handleMobileControl d g) = snake g \<and> peach (handleMobileControl d g) = peach g
   \<and> score (handleMobileControl d g) = score g"
  by (cases d) (simp_all add: handleMobileControl_def)

lemma generatePeach_off:
  "generatePeach rnd k segs = Some (p, k') \<Longrightarrow> \<not> occupies segs p"
  using generatePeach_Some[of rnd k segs "(p, k')"] by auto

lemma moveSnake_stopped:
  assumes "phase g = ACTIVE" and "snake g = h # t"
    and "\<not> in_grid (advance (direction g) h) \<or> occupies (snake g) (advance (direction g) h)"
  shows "moveSnake rnd (g, k) = Some (g\<lparr>gameOver := True, isPlaying := False\<rparr>, k)"
  using assms by (auto simp: phase_ACTIVE_iff moveSnake_def in_grid_def Let_def)

lemma moveSnake_peach_placed:
  assumes "peach_placed g" and "moveSnake rnd (g, k) = Some (g', k')"
  shows "peach_placed g'"
proof (cases "phase g = ACTIVE")
  case False
  with assms show ?thesis by (simp add: moveSnake_inactive)
next
  case True
  from assms(1) obtain h t where ht: "snake g = h # t"
    by (cases "snake g") (auto simp: peach_placed_def)
  let ?head = "advance (direction g) h"
  from True have sc: "score g < MAX_PEACHES" by (simp add: phase_ACTIVE_iff)
  with assms(1) have off: "\<not> occupies (snake g) (peach g)" by (simp add: peach_placed_def)
  show ?thesis
  proof (cases "in_grid ?head \<and> \<not> occupies (snake g) ?head")
    case False
    then have "moveSnake rnd (g, k) = Some (g\<lparr>gameOver := True, isPlaying := False\<rparr>, k)"
      using moveSnake_stopped[OF True ht, of rnd k] by blast
    with assms show ?thesis by (auto simp: peach_placed_def)
  next
    case free: True
    then have g: "in_grid ?head" and o: "\<not> occupies (snake g) ?head" by simp_all
    note m = moveSnake_moving[OF True ht g o, of rnd k]
    show ?thesis
    proof (cases "?head = peach g")
      case False
      with m assms(2) have g': "g' = g\<lparr>snake := ?head # butlast (snake g)\<rparr>" by simp
      from off have "peach g \<notin> set (butlast (snake g))"
        by (auto simp: occupies_iff dest: in_set_butlastD)
      with False g' sc show ?thesis by (simp add: peach_placed_def occupies_iff)
    next
      case eat: True
      show ?thesis
      proof (cases "score g + 1 < MAX_PEACHES")
        case False
        with m eat assms(2)
        have "g' = g\<lparr>snake := ?head # snake g, score := score g + 1, isPlaying := False\<rparr>"
          by simp
        with False eat show ?thesis by (simp add: peach_placed_def)
      next
        case True
        with m eat assms(2) obtain r where
          r: "generatePeach rnd k (?head # snake g) = Some r"
          and g': "g' = g\<lparr>snake := ?head # snake g, score := score g + 1, peach := fst r\<rparr>"
          by (auto split: option.splits)
        from r have "\<not> occupies (?head # snake g) (fst r)"
          using generatePeach_off[of rnd k "?head # snake g" "fst r" "snd r"] by simp
        with g' True show ?thesis by (simp add: peach_placed_def)
      qed
    qed
  qed
qed

lemma step_peach_placed:
  assumes "peach_placed g" and "step rnd e (g, k) = Some (g', k')"
  shows "peach_placed g'"
proof (cases e)
  case Tick
  with assms moveSnake_peach_placed show ?thesis by (simp add: step_def)
next
  case (KeyDown key)
  with assms handleKeyPress_cells[of key g] show ?thesis
    by (auto simp: step_def peach_placed_def)
next
  case (Touch d)
  with assms handleMobileControl_cells[of d g] show ?thesis
    by (auto simp: step_def peach_placed_def)
next
  case StartClick
  with assms(2) obtain p where
    p: "generatePeach rnd k INITIAL_SNAKE = Some (p, k')"
    and g': "g' = g\<lparr>snake := INITIAL_SNAKE, direction := INITIAL_DIRECTION, peach := p,
                     gameOver := False, score := 0, isPlaying := True\<rparr>"
    by (auto simp: step_def startGame_def split: option.splits)
  from generatePeach_off[OF p] g' show ?thesis
    by (simp add: peach_placed_def MAX_PEACHES_def INITIAL_SNAKE_def)
next
  case ResetClick
  with assms(2) show ?thesis
    by (auto simp: step_def resetGame_def peach_placed_def MAX_PEACHES_def INITIAL_SNAKE_def
        occupies_def)
qed

text \<open>
  C1, as the code has it: in every state a run reaches from the initial state, the peach
  is not a cell of the snake unless the phase is \<open>WON\<close>; in phase \<open>WON\<close> the peach is the
  head of the snake, because the tick that eats the last peach places no new one.
\<close>

theorem peach_off_snake_until_won:
  assumes "exec rnd es (initial_game, k0) = Some (g, k)"
  shows "(phase g \<noteq> WON \<longrightarrow> \<not> occupies (snake g) (peach g))
         \<and> (phase g = WON \<longrightarrow> snake g \<noteq> [] \<and> peach g = hd (snake g))"
proof -
  have "peach_placed initial_game"
    by (simp add: peach_placed_def initial_game_def INITIAL_SNAKE_def MAX_PEACHES_def
        occupies_def)
  from exec_invariant[where P = peach_placed, OF step_peach_placed this assms]
  have "peach_placed g" .
  then show ?thesis by (auto simp: peach_placed_def phase_WON_iff)
qed

text \<open>A run with a reset in it, and the running state it ends in.\<close>

theorem peach_off_snake_witness:
  "exec (constant_source 0) [StartClick, Tick, ResetClick, StartClick, Tick, Tick] (initial_game, 0)
     = Some (playing [\<lparr>x = 12, y = 10\<rparr>] RIGHT \<lparr>x = 0, y = 0\<rparr> 0, 4)
   \<and> phase (playing [\<lparr>x = 12, y = 10\<rparr>] RIGHT \<lparr>x = 0, y = 0\<rparr> 0) = ACTIVE
   \<and> \<not> occupies [\<lparr>x = 12, y = 10\<rparr>] \<lparr>x = 0, y = 0\<rparr>"
proof -
  have e: "exec (constant_source 0) [StartClick, Tick, ResetClick, StartClick, Tick, Tick] (initial_game, 0)
     = Some (playing [\<lparr>x = 12, y = 10\<rparr>] RIGHT \<lparr>x = 0, y = 0\<rparr> 0, 4)"
    by (simp add: step_def startGame_def resetGame_def moveSnake_def generatePeach_free
        draw_constant_zero occupies_def advance_def initial_game_def playing_def
        INITIAL_SNAKE_def INITIAL_DIRECTION_def GRID_SIZE_def MAX_PEACHES_def)
  from peach_off_snake_until_won[OF e] e show ?thesis
    by (simp add: playing_def phase_def isGameWon_def MAX_PEACHES_def)
qed

text \<open>
  Against C1 as stated: the run that eats ten peaches ends in phase \<open>WON\<close> with the peach
  at \<open>(19, 11)\<close>, which is the head of the snake.
\<close>

theorem peach_under_head_when_won:
  "exec row_source winning_run (initial_game, 0)
     = Some (\<lparr>snake = [\<lparr>x = 19, y = 11\<rparr>, \<lparr>x = 19, y = 10\<rparr>, \<lparr>x = 18, y = 10\<rparr>,
                        \<lparr>x = 17, y = 10\<rparr>, \<lparr>x = 16, y = 10\<rparr>, \<lparr>x = 15, y = 10\<rparr>,
                        \<lparr>x = 14, y = 10\<rparr>, \<lparr>x = 13, y = 10\<rparr>, \<lparr>x = 12, y = 10\<rparr>,
                        \<lparr>x = 11, y = 10\<rparr>, \<lparr>x = 10, y = 10\<rparr>],
               direction = DOWN, peach = \<lparr>x = 19, y = 11\<rparr>, gameOver = False,
               score = 10, isPlaying = False\<rparr>, 20)
   \<and> map_option (\<lambda>s. phase (fst s)) (exec row_source winning_run (initial_game, 0)) = Some WON
   \<and> in_unit row_source
   \<and> occupies [\<lparr>x = 19, y = 11\<rparr>, \<lparr>x = 19, y = 10\<rparr>, \<lparr>x = 18, y = 10\<rparr>,
                        \<lparr>x = 17, y = 10\<rparr>, \<lparr>x = 16, y = 10\<rparr>, \<lparr>x = 15, y = 10\<rparr>,
                        \<lparr>x = 14, y = 10\<rparr>, \<lparr>x = 13, y = 10\<rparr>, \<lparr>x = 12, y = 10\<rparr>,
                        \<lparr>x = 11, y = 10\<rparr>, \<lparr>x = 10, y = 10\<rparr>] \<lparr>x = 19, y = 11\<rparr>"
proof -
  have u: "in_unit row_source"
    unfolding row_source_def using row_coordinate_range by (rule in_unit_coordinate_source)
  have e: "exec row_source winning_run (initial_game, 0)
     = Some (\<lparr>snake = [\<lparr>x = 19, y = 11\<rparr>, \<lparr>x = 19, y = 10\<rparr>, \<lparr>x = 18, y = 10\<rparr>,
                        \<lparr>x = 17, y = 10\<rparr>, \<lparr>x = 16, y = 10\<rparr>, \<lparr>x = 15, y = 10\<rparr>,
                        \<lparr>x = 14, y = 10\<rparr>, \<lparr>x = 13, y = 10\<rparr>, \<lparr>x = 12, y = 10\<rparr>,
                        \<lparr>x = 11, y = 10\<rparr>, \<lparr>x = 10, y = 10\<rparr>],
               direction = DOWN, peach = \<lparr>x = 19, y = 11\<rparr>, gameOver = False,
               score = 10, isPlaying = False\<rparr>, 20)"
    by (simp add: winning_run_def step_def startGame_def moveSnake_def generatePeach_free
        draw_row row_coordinate_def Let_def occupies_def advance_def initial_game_def handleMobileControl_def
        INITIAL_SNAKE_def INITIAL_DIRECTION_def GRID_SIZE_def MAX_PEACHES_def)
  from u e show ?thesis by (simp add: occupies_def phase_def isGameWon_def MAX_PEACHES_def)
qed

lemma moveSnake_body_in_grid:
  assumes "body_in_grid g" and "moveSnake rnd (g, k) = Some (g', k')"
  shows "body_in_grid g'"
proof (cases "phase g = ACTIVE")
  case False
  with assms show ?thesis by (simp add: moveSnake_inactive)
next
  case True
  show ?thesis
  proof (cases "snake g")
    case Nil
    with assms show ?thesis by (auto simp: moveSnake_def split: if_splits)
  next
    case (Cons h t)
    let ?head = "advance (direction g) h"
    show ?thesis
    proof (cases "in_grid ?head \<and> \<not> occupies (snake g) ?head")
      case False
      then have "moveSnake rnd (g, k) = Some (g\<lparr>gameOver := True, isPlaying := False\<rparr>, k)"
        using moveSnake_stopped[OF True Cons, of rnd k] by blast
      with assms show ?thesis by (auto simp: body_in_grid_def)
    next
      case free: True
      then have g: "in_grid ?head" and o: "\<not> occupies (snake g) ?head" by simp_all
      from assms(1) have "list_all in_grid (butlast (snake g))"
        by (auto simp: body_in_grid_def list_all_iff dest: in_set_butlastD)
      with moveSnake_moving[OF True Cons g o, of rnd k] assms g show ?thesis
        by (auto simp: body_in_grid_def split: if_splits option.splits)
    qed
  qed
qed

lemma step_body_in_grid:
  assumes "body_in_grid g" and "step rnd e (g, k) = Some (g', k')"
  shows "body_in_grid g'"
proof (cases e)
  case Tick
  with assms moveSnake_body_in_grid show ?thesis by (simp add: step_def)
next
  case (KeyDown key)
  with assms handleKeyPress_cells[of key g] show ?thesis
    by (auto simp: step_def body_in_grid_def)
next
  case (Touch d)
  with assms handleMobileControl_cells[of d g] show ?thesis
    by (auto simp: step_def body_in_grid_def)
next
  case StartClick
  with assms(2) show ?thesis
    by (auto simp: step_def startGame_def body_in_grid_def INITIAL_SNAKE_def in_grid_def
        GRID_SIZE_def split: option.splits)
next
  case ResetClick
  with assms(2) show ?thesis
    by (auto simp: step_def resetGame_def body_in_grid_def INITIAL_SNAKE_def in_grid_def
        GRID_SIZE_def)
qed

text \<open>
  C9: the snake of the initial state is inside the grid, a tick keeps the snake inside the
  grid in every phase, and so every cell of the snake of every state a run reaches from the
  initial state has both coordinates in \<open>[0, GRID_SIZE)\<close>.
\<close>

theorem body_stays_in_grid:
  "body_in_grid initial_game
   \<and> (body_in_grid g \<and> step rnd Tick (g, k) = Some (g', k') \<longrightarrow> body_in_grid g')
   \<and> (exec rnd es (initial_game, k0) = Some (g1, k1) \<longrightarrow>
        (\<forall>p\<in>set (snake g1). 0 \<le> x p \<and> x p < GRID_SIZE \<and> 0 \<le> y p \<and> y p < GRID_SIZE))"
proof (intro conjI impI)
  show i: "body_in_grid initial_game"
    by (simp add: body_in_grid_def initial_game_def INITIAL_SNAKE_def in_grid_def GRID_SIZE_def)
  show "body_in_grid g'" if "body_in_grid g \<and> step rnd Tick (g, k) = Some (g', k')"
    using that step_body_in_grid by blast
  show "\<forall>p\<in>set (snake g1). 0 \<le> x p \<and> x p < GRID_SIZE \<and> 0 \<le> y p \<and> y p < GRID_SIZE"
    if r: "exec rnd es (initial_game, k0) = Some (g1, k1)"
  proof -
    from exec_invariant[where P = body_in_grid, OF step_body_in_grid i r]
    have "body_in_grid g1" .
    then show ?thesis by (auto simp: body_in_grid_def list_all_iff in_grid_def)
  qed
qed

theorem body_stays_in_grid_witness:
  "exec (constant_source 0) [StartClick, Tick, Touch UP, Tick, Tick] (initial_game, 0)
     = Some (playing [\<lparr>x = 11, y = 8\<rparr>] UP \<lparr>x = 0, y = 0\<rparr> 0, 2)
   \<and> body_in_grid (playing [\<lparr>x = 11, y = 8\<rparr>] UP \<lparr>x = 0, y = 0\<rparr> 0)
   \<and> step (constant_source 0) Tick (playing [\<lparr>x = 11, y = 8\<rparr>] UP \<lparr>x = 0, y = 0\<rparr> 0, 2)
       = Some (playing [\<lparr>x = 11, y = 7\<rparr>] UP \<lparr>x = 0, y = 0\<rparr> 0, 2)
   \<and> body_in_grid (playing [\<lparr>x = 11, y = 7\<rparr>] UP \<lparr>x = 0, y = 0\<rparr> 0)"
proof -
  let ?g = "playing [\<lparr>x = 11, y = 8\<rparr>] UP \<lparr>x = 0, y = 0\<rparr> 0"
  let ?g' = "playing [\<lparr>x = 11, y = 7\<rparr>] UP \<lparr>x = 0, y = 0\<rparr> 0"
  have e: "exec (constant_source 0) [StartClick, Tick, Touch UP, Tick, Tick] (initial_game, 0)
     = Some (?g, 2)"
    by (simp add: step_def startGame_def moveSnake_def generatePeach_free draw_constant_zero
        handleMobileControl_def occupies_def advance_def initial_game_def
        playing_def INITIAL_SNAKE_def INITIAL_DIRECTION_def GRID_SIZE_def MAX_PEACHES_def)
  have s: "step (constant_source 0) Tick (?g, 2) = Some (?g', 2)"
    by (simp add: step_def moveSnake_def occupies_def advance_def
        playing_def GRID_SIZE_def MAX_PEACHES_def)
  have b: "body_in_grid ?g"
    by (simp add: body_in_grid_def playing_def in_grid_def GRID_SIZE_def)
  from body_stays_in_grid[of ?g "constant_source 0" 2 ?g' 2
         "[StartClick, Tick, Touch UP, Tick, Tick]" 0 ?g 2] e s b
  show ?thesis by simp
qed

end
